theory Spec2Isabelle
  imports Main "HOL-Library.Word"
begin

section \<open>The downloader of \<open>https_client.c\<close>\<close>

text \<open>
  The file \<open>https_client.c\<close> keeps its session in module-level variables
  (\<open>file_handle\<close>, \<open>total_bytes\<close>, \<open>storage_error\<close>, \<open>buffer_offset\<close>) that the event
  callback and the retry loop of \<open>https_download_file\<close> both mutate. The model passes
  these variables around as one record. Everything the code asks of its surroundings
  (the HTTP client, the C library, SPIFFS, FreeRTOS) is answered by an oracle record
  \<open>env\<close>; every such call is appended to a log kept beside the variables, and an oracle
  sees the log of all calls made before it, so that its answers may depend on the whole
  history.

  The target is a 32-bit controller: \<open>size_t\<close> and \<open>int\<close> are 32 bits wide.
  Left out of the model: the log lines (\<open>ESP_LOGx\<close>), the timestamps and the
  floating-point throughput figure, which only feed a log line, and the values of the
  bytes that \<open>memcpy\<close> moves (the model keeps how many there are).
\<close>

subsection \<open>Constants and types\<close>

type_synonym size_t = "32 word"
type_synonym c_int = "32 word"
type_synonym esp_err_t = int

definition ESP_OK :: esp_err_t where
  "ESP_OK = 0"

definition ESP_FAIL :: esp_err_t where
  "ESP_FAIL = - 1"

definition MAX_RETRIES :: nat where
  "MAX_RETRIES = 3"

definition BACKOFF_BASE_MS :: int where
  "BACKOFF_BASE_MS = 1000"

definition WRITE_BUFFER_SIZE :: size_t where
  "WRITE_BUFFER_SIZE = 32768"

datatype esp_http_client_event_id_t =
    HTTP_EVENT_ERROR
  | HTTP_EVENT_ON_CONNECTED
  | HTTP_EVENT_HEADER_SENT
  | HTTP_EVENT_ON_HEADER
  | HTTP_EVENT_ON_DATA
  | HTTP_EVENT_ON_FINISH
  | HTTP_EVENT_DISCONNECTED
  | HTTP_EVENT_REDIRECT

text \<open>
  The fields of \<open>esp_http_client_event_t\<close> that the callback reads: \<open>data\<close> tells
  whether the pointer is non-null, \<open>data_len\<close> is the C \<open>int\<close>, whose sign the callback
  tests (\<open><s\<close> is the signed order on words) before it reads the same bits as a
  \<open>size_t\<close>.
\<close>

record esp_http_client_event_t =
  event_id :: esp_http_client_event_id_t
  data :: bool
  data_len :: c_int

text \<open>
  The calls that leave the module. \<open>Perform\<close> carries the values of \<open>total_bytes\<close>,
  \<open>storage_error\<close> and \<open>buffer_offset\<close> at the moment \<open>esp_http_client_perform\<close> is
  entered; \<open>Spiffs_info\<close> the status, total and used figures \<open>esp_spiffs_info\<close> gave;
  \<open>Fwrite\<close> the count asked for and the count \<open>fwrite\<close> returned; \<open>Task_delay\<close> the
  milliseconds handed to \<open>vTaskDelay (pdMS_TO_TICKS ...)\<close>.
\<close>

datatype call =
    Client_init bool
  | Unlink
  | Fopen bool
  | Perform size_t bool size_t
  | Spiffs_info esp_err_t size_t size_t
  | Fwrite size_t size_t
  | Fclose
  | Client_cleanup
  | Task_delay int

record env =
  client_init_ret :: "call list \<Rightarrow> bool"
  fopen_ret :: "call list \<Rightarrow> bool"
  perform_ret :: "call list \<Rightarrow> esp_http_client_event_t list \<times> esp_err_t"
  spiffs_info_ret :: "call list \<Rightarrow> esp_err_t \<times> size_t \<times> size_t"
  fwrite_ret :: "call list \<Rightarrow> size_t \<Rightarrow> size_t"

record state =
  file_handle :: bool
  total_bytes :: size_t
  storage_error :: bool
  buffer_offset :: size_t
  trace :: "call list"

definition log :: "call \<Rightarrow> state \<Rightarrow> state" where
  "log c st = st\<lparr>trace := trace st @ [c]\<rparr>"

subsection \<open>\<open>flush_write_buffer\<close>\<close>

definition flush_write_buffer :: "env \<Rightarrow> state \<Rightarrow> state" where
  "flush_write_buffer env st =
     (if file_handle st \<and> 0 < buffer_offset st \<and> \<not> storage_error st then
        let written = fwrite_ret env (trace st) (buffer_offset st);
            st1 = log (Fwrite (buffer_offset st) written) st;
            st2 = (if written \<noteq> buffer_offset st1
                   then st1\<lparr>storage_error := True\<rparr>
                   else st1\<lparr>total_bytes := total_bytes st1 + written\<rparr>)
        in st2\<lparr>buffer_offset := 0\<rparr>
      else st)"

subsection \<open>\<open>_http_event_handler\<close>\<close>

text \<open>
  The copy loop of the \<open>HTTP_EVENT_ON_DATA\<close> case. With the file closed and the buffer
  exactly full the C loop would spin for ever; the result \<open>None\<close> stands for that.
\<close>

partial_function (option) copy_loop :: "env \<Rightarrow> size_t \<Rightarrow> state \<Rightarrow> state option" where
  "copy_loop env remaining st =
     (if 0 < remaining \<and> \<not> storage_error st then
        let space_left = WRITE_BUFFER_SIZE - buffer_offset st;
            to_copy = (if remaining < space_left then remaining else space_left);
            st1 = st\<lparr>buffer_offset := buffer_offset st + to_copy\<rparr>;
            st2 = (if buffer_offset st1 = WRITE_BUFFER_SIZE
                   then flush_write_buffer env st1 else st1)
        in copy_loop env (remaining - to_copy) st2
      else Some st)"

declare copy_loop.simps [code]

definition http_event_handler :: "env \<Rightarrow> state \<Rightarrow> esp_http_client_event_t \<Rightarrow> state option" where
  "http_event_handler env st evt =
     (case event_id evt of
        HTTP_EVENT_ON_DATA \<Rightarrow>
          if data evt \<and> 0 <s data_len evt \<and> file_handle st \<and> \<not> storage_error st then
            (case spiffs_info_ret env (trace st) of (err, tot, used) \<Rightarrow>
               let st1 = log (Spiffs_info err tot used) st in
               if err = ESP_OK \<and> tot - used < data_len evt
               then Some (st1\<lparr>storage_error := True\<rparr>)
               else copy_loop env (data_len evt) st1)
          else Some st
      | HTTP_EVENT_ON_FINISH \<Rightarrow> Some (flush_write_buffer env st)
      | _ \<Rightarrow> Some st)"

subsection \<open>\<open>esp_http_client_perform\<close>\<close>

text \<open>
  The library call is blocking: it hands the events of one transfer to the callback, one
  after the other, and returns a status. The oracle fixes both the events and the status.
  The callback is taken to run inside this call only.
\<close>

fun dispatch :: "env \<Rightarrow> state \<Rightarrow> esp_http_client_event_t list \<Rightarrow> state option" where
  "dispatch env st [] = Some st"
| "dispatch env st (evt # evts) =
     (case http_event_handler env st evt of
        None \<Rightarrow> None
      | Some st' \<Rightarrow> dispatch env st' evts)"

definition esp_http_client_perform :: "env \<Rightarrow> state \<Rightarrow> (esp_err_t \<times> state) option" where
  "esp_http_client_perform env st =
     (case perform_ret env (trace st) of (evts, ret) \<Rightarrow>
        (case dispatch env
                (log (Perform (total_bytes st) (storage_error st) (buffer_offset st)) st) evts of
           None \<Rightarrow> None
         | Some st' \<Rightarrow> Some (ret, st')))"

subsection \<open>\<open>https_download_file\<close>\<close>

text \<open>
  One pass through the body of the \<open>for\<close> loop either leaves the function with a
  \<open>return\<close> or falls through to the next pass. The body is cut in three consecutive
  blocks: opening (lines 132 to 147), the transfer (lines 149 to 160) and the decision
  (lines 162 to 192).
\<close>

datatype flow = Return esp_err_t | Go_on

definition attempt_open :: "env \<Rightarrow> state \<Rightarrow> flow \<times> state" where
  "attempt_open env st =
     (let client = client_init_ret env (trace st);
          st1 = log (Client_init client) st
      in if \<not> client then (Return ESP_FAIL, st1)
         else
           let st2 = log Unlink st1;
               fh = fopen_ret env (trace st2);
               st3 = log (Fopen fh) (st2\<lparr>file_handle := fh\<rparr>)
           in if \<not> file_handle st3 then (Return ESP_FAIL, log Client_cleanup st3)
              else (Go_on, st3))"

definition attempt_transfer :: "env \<Rightarrow> state \<Rightarrow> (esp_err_t \<times> state) option" where
  "attempt_transfer env st =
     (let st1 = st\<lparr>total_bytes := 0, storage_error := False, buffer_offset := 0\<rparr>
      in case esp_http_client_perform env st1 of
           None \<Rightarrow> None
         | Some (ret, st2) \<Rightarrow>
             let st3 = flush_write_buffer env st2;
                 st4 = (log Fclose st3)\<lparr>file_handle := False\<rparr>
             in Some (ret, st4))"

definition attempt_decide :: "nat \<Rightarrow> esp_err_t \<Rightarrow> state \<Rightarrow> flow \<times> state" where
  "attempt_decide attempt ret st =
     (if ret = ESP_OK \<and> \<not> storage_error st then (Return ESP_OK, log Client_cleanup st)
      else if storage_error st then (Return ESP_FAIL, log Client_cleanup st)
      else
        let backoff_ms = BACKOFF_BASE_MS * 2 ^ (attempt - 1);
            st1 = log (Task_delay backoff_ms) st
        in (Go_on, log Client_cleanup st1))"

definition download_attempt :: "env \<Rightarrow> nat \<Rightarrow> state \<Rightarrow> (flow \<times> state) option" where
  "download_attempt env attempt st =
     (case attempt_open env st of
        (Return r, st1) \<Rightarrow> Some (Return r, st1)
      | (Go_on, st1) \<Rightarrow>
          (case attempt_transfer env st1 of
             None \<Rightarrow> None
           | Some (ret, st2) \<Rightarrow> Some (attempt_decide attempt ret st2)))"

function download_loop :: "env \<Rightarrow> nat \<Rightarrow> state \<Rightarrow> (esp_err_t \<times> state) option" where
  "download_loop env attempt st =
     (if attempt \<le> MAX_RETRIES then
        (case download_attempt env attempt st of
           None \<Rightarrow> None
         | Some (Return r, st') \<Rightarrow> Some (r, st')
         | Some (Go_on, st') \<Rightarrow> download_loop env (attempt + 1) st')
      else Some (ESP_FAIL, st))"
  by pat_completeness auto
termination
  by (relation "measure (\<lambda>(env, attempt, st). MAX_RETRIES + 1 - attempt)") auto

declare download_loop.simps [simp del]

definition https_download_file :: "env \<Rightarrow> state \<Rightarrow> (esp_err_t \<times> state) option" where
  "https_download_file env st = download_loop env 1 st"

subsection \<open>Reading the log\<close>

text \<open>
  The calls a run has added to the log, the byte counts it passed to \<open>fwrite\<close>, and the
  calls that only the callback makes.
\<close>

definition new_calls :: "state \<Rightarrow> state \<Rightarrow> call list" where
  "new_calls st st' = drop (length (trace st)) (trace st')"

fun fwrite_sizes :: "call list \<Rightarrow> nat list" where
  "fwrite_sizes [] = []"
| "fwrite_sizes (Fwrite n w # cs) = unat n # fwrite_sizes cs"
| "fwrite_sizes (c # cs) = fwrite_sizes cs"

fun handler_call :: "call \<Rightarrow> bool" where
  "handler_call (Spiffs_info err tot used) = True"
| "handler_call (Fwrite n w) = True"
| "handler_call c = False"

fun short_write :: "call \<Rightarrow> bool" where
  "short_write (Fwrite n w) = (w \<noteq> n)"
| "short_write c = False"

fun is_Perform :: "call \<Rightarrow> bool" where
  "is_Perform (Perform tb se off) = True"
| "is_Perform c = False"

fun is_Fopen :: "call \<Rightarrow> bool" where
  "is_Fopen (Fopen fh) = True"
| "is_Fopen c = False"

fun is_Task_delay :: "call \<Rightarrow> bool" where
  "is_Task_delay (Task_delay ms) = True"
| "is_Task_delay c = False"

text \<open>
  \<open>opens_after prev cs\<close>: every \<open>fopen\<close> in \<open>cs\<close> comes directly after an \<open>unlink\<close>,
  where \<open>prev\<close> is the call made just before \<open>cs\<close>, if there is one.
\<close>

fun opens_after :: "call option \<Rightarrow> call list \<Rightarrow> bool" where
  "opens_after prev [] = True"
| "opens_after prev (c # cs) =
     ((is_Fopen c \<longrightarrow> prev = Some Unlink) \<and> opens_after (Some c) cs)"

subsection \<open>Events and their payload\<close>

text \<open>
  A data event carries a chunk when its pointer is set and its length is positive. It is
  well formed when it carries a chunk or is empty. The payload of a list of events is the
  sum of the lengths of its data events.
\<close>

definition is_chunk :: "esp_http_client_event_t \<Rightarrow> bool" where
  "is_chunk evt = (event_id evt = HTTP_EVENT_ON_DATA \<and> data evt \<and> 0 <s data_len evt)"

definition well_formed :: "esp_http_client_event_t \<Rightarrow> bool" where
  "well_formed evt =
     (event_id evt = HTTP_EVENT_ON_DATA \<longrightarrow> is_chunk evt \<or> data_len evt = 0)"

fun payload :: "esp_http_client_event_t list \<Rightarrow> nat" where
  "payload [] = 0"
| "payload (evt # evts) =
     (if event_id evt = HTTP_EVENT_ON_DATA then unat (data_len evt) else 0) + payload evts"

subsection \<open>Runs of failed attempts\<close>

text \<open>
  \<open>transport_failures env attempt k st = Some st'\<close>: the \<open>k\<close> passes of the loop body
  numbered \<open>attempt\<close>, \<open>attempt + 1\<close>, ... that start in \<open>st\<close> each get through the
  opening and end their transfer with a status other than \<open>ESP_OK\<close> and without a
  storage error; \<open>st'\<close> is the state they leave.
\<close>

fun transport_failures :: "env \<Rightarrow> nat \<Rightarrow> nat \<Rightarrow> state \<Rightarrow> state option" where
  "transport_failures env attempt 0 st = Some st"
| "transport_failures env attempt (Suc k) st =
     (case attempt_open env st of
        (Return r, st1) \<Rightarrow> None
      | (Go_on, st1) \<Rightarrow>
          (case attempt_transfer env st1 of
             None \<Rightarrow> None
           | Some (ret, st2) \<Rightarrow>
               if ret \<noteq> ESP_OK \<and> \<not> storage_error st2
               then transport_failures env (Suc attempt) k (snd (attempt_decide attempt ret st2))
               else None))"

subsection \<open>Concrete surroundings\<close>

text \<open>
  The variables as the C runtime initialises them and as an earlier download may have
  left them, a data event of a given length, the finish event, and surroundings in
  which: every transfer fails without delivering anything; every transfer delivers 100
  bytes and then fails; the first two transfers fail and the third delivers two chunks of
  20000 bytes; the file system has 1000 bytes left; the file can be opened once only;
  \<open>fwrite\<close> never takes more than ten bytes; \<open>esp_spiffs_info\<close> fails.
\<close>

definition st_boot :: state where
  "st_boot = \<lparr>file_handle = False, total_bytes = 0, storage_error = False,
              buffer_offset = 0, trace = []\<rparr>"

definition st_dirty :: state where
  "st_dirty = \<lparr>file_handle = False, total_bytes = 7, storage_error = True,
               buffer_offset = 5, trace = []\<rparr>"

definition st_open :: state where
  "st_open = st_boot\<lparr>file_handle := True\<rparr>"

definition chunk :: "c_int \<Rightarrow> esp_http_client_event_t" where
  "chunk n = \<lparr>event_id = HTTP_EVENT_ON_DATA, data = True, data_len = n\<rparr>"

definition finish :: esp_http_client_event_t where
  "finish = \<lparr>event_id = HTTP_EVENT_ON_FINISH, data = False, data_len = 0\<rparr>"

definition env_offline :: env where
  "env_offline =
     \<lparr>client_init_ret = (\<lambda>tr. True), fopen_ret = (\<lambda>tr. True),
      perform_ret = (\<lambda>tr. ([], ESP_FAIL)),
      spiffs_info_ret = (\<lambda>tr. (ESP_OK, 1000000, 0)),
      fwrite_ret = (\<lambda>tr n. n)\<rparr>"

definition env_drops :: env where
  "env_drops = env_offline\<lparr>perform_ret := (\<lambda>tr. ([chunk 100], ESP_FAIL))\<rparr>"

definition env_flaky :: env where
  "env_flaky =
     env_offline\<lparr>perform_ret := (\<lambda>tr.
       if length (filter is_Perform tr) < 2 then ([], ESP_FAIL)
       else ([chunk 20000, chunk 20000, finish], ESP_OK))\<rparr>"

definition env_nearly_full :: env where
  "env_nearly_full =
     env_offline\<lparr>perform_ret := (\<lambda>tr. ([chunk 2000, chunk 100], ESP_OK)),
                  spiffs_info_ret := (\<lambda>tr. (ESP_OK, 1000000, 999000))\<rparr>"

definition env_opens_once :: env where
  "env_opens_once = env_offline\<lparr>fopen_ret := (\<lambda>tr. length tr < 5)\<rparr>"

definition env_short_write :: env where
  "env_short_write = env_offline\<lparr>fwrite_ret := (\<lambda>tr n. 10)\<rparr>"

definition env_info_fails :: env where
  "env_info_fails = env_offline\<lparr>spiffs_info_ret := (\<lambda>tr. (ESP_FAIL, 0, 0))\<rparr>"

section \<open>Properties\<close>


subsection \<open>The flush\<close>

lemma flush_noop:
  "\<not> (file_handle st \<and> 0 < buffer_offset st \<and> \<not> storage_error st) \<Longrightarrow>
     flush_write_buffer env st = st"
  by (auto simp: flush_write_buffer_def)

lemma flush_writes:
  assumes "file_handle st" and "0 < buffer_offset st" and "\<not> storage_error st"
  shows "flush_write_buffer env st =
         (if fwrite_ret env (trace st) (buffer_offset st) \<noteq> buffer_offset st
          then st\<lparr>storage_error := True, buffer_offset := 0,
                  trace := trace st @
                    [Fwrite (buffer_offset st) (fwrite_ret env (trace st) (buffer_offset st))]\<rparr>
          else st\<lparr>total_bytes := total_bytes st + buffer_offset st, buffer_offset := 0,
                  trace := trace st @ [Fwrite (buffer_offset st) (buffer_offset st)]\<rparr>)"
  using assms by (simp add: flush_write_buffer_def log_def Let_def)

lemma flush_file_handle: "file_handle (flush_write_buffer env st) = file_handle st"
  by (simp add: flush_write_buffer_def log_def Let_def)

lemma flush_latch: "storage_error st \<Longrightarrow> storage_error (flush_write_buffer env st)"
  by (simp add: flush_write_buffer_def)

lemma flush_offset:
  "buffer_offset st < WRITE_BUFFER_SIZE \<Longrightarrow>
     buffer_offset (flush_write_buffer env st) < WRITE_BUFFER_SIZE"
  by (simp add: flush_write_buffer_def log_def Let_def WRITE_BUFFER_SIZE_def)

lemma flush_trace:
  "\<exists>ws. trace (flush_write_buffer env st) = trace st @ ws \<and> (\<forall>c\<in>set ws. handler_call c)
        \<and> (storage_error (flush_write_buffer env st) \<and> \<not> storage_error st
              \<longrightarrow> (\<exists>c\<in>set ws. short_write c))
        \<and> (\<not> storage_error (flush_write_buffer env st) \<longrightarrow>
              fwrite_sizes ws = (if file_handle st \<and> 0 < buffer_offset st
                                 then [unat (buffer_offset st)] else [])
              \<and> buffer_offset (flush_write_buffer env st) =
                  (if file_handle st then 0 else buffer_offset st))"
proof (cases "file_handle st \<and> 0 < buffer_offset st \<and> \<not> storage_error st")
  case True
  then show ?thesis
    by (simp add: flush_writes)
next
  case False
  then have "flush_write_buffer env st = st"
    by (rule flush_noop)
  with False show ?thesis
    by (auto simp: word_greater_zero_iff)
qed


subsection \<open>The copy loop\<close>

lemma copy_loop_stop:
  "\<not> (0 < r \<and> \<not> storage_error st) \<Longrightarrow> copy_loop env r st = Some st"
  by (subst copy_loop.simps) auto

lemma copy_loop_total:
  assumes "file_handle st"
  shows "\<exists>st' ws. copy_loop env r st = Some st' \<and> file_handle st'
           \<and> trace st' = trace st @ ws \<and> (\<forall>c\<in>set ws. handler_call c)
           \<and> (storage_error st \<longrightarrow> st' = st)"
  using assms
proof (induction "2 * unat r + (if buffer_offset st = WRITE_BUFFER_SIZE then 1 else 0)"
         arbitrary: r st rule: less_induct)
  case less
  show ?case
  proof (cases "0 < r \<and> \<not> storage_error st")
    case False
    then have "copy_loop env r st = Some st"
      by (rule copy_loop_stop)
    then show ?thesis
      using less.prems by simp
  next
    case True
    then have r: "0 < r" and ok: "\<not> storage_error st" by simp_all
    define space_left where "space_left = WRITE_BUFFER_SIZE - buffer_offset st"
    define to_copy where "to_copy = (if r < space_left then r else space_left)"
    define st1 where "st1 = st\<lparr>buffer_offset := buffer_offset st + to_copy\<rparr>"
    define st2 where "st2 = (if buffer_offset st1 = WRITE_BUFFER_SIZE
                             then flush_write_buffer env st1 else st1)"
    have step: "copy_loop env r st = copy_loop env (r - to_copy) st2"
      using True
      by (subst copy_loop.simps) (simp add: Let_def space_left_def to_copy_def st1_def st2_def)
    have fh2: "file_handle st2"
      using less.prems by (simp add: st2_def st1_def flush_file_handle)
    have le: "to_copy \<le> r"
      by (simp add: to_copy_def not_less)
    have unat_rest: "unat (r - to_copy) = unat r - unat to_copy"
      using le by (simp add: unat_sub)
    have dec: "2 * unat (r - to_copy) + (if buffer_offset st2 = WRITE_BUFFER_SIZE then 1 else 0)
               < 2 * unat r + (if buffer_offset st = WRITE_BUFFER_SIZE then 1 else 0)"
    proof (cases "buffer_offset st = WRITE_BUFFER_SIZE")
      case True
      then have "to_copy = 0"
        by (simp add: to_copy_def space_left_def)
      then have "st1 = st"
        by (simp add: st1_def)
      then have "st2 = flush_write_buffer env st"
        using True by (simp add: st2_def)
      moreover have "0 < buffer_offset st"
        using True by (simp add: WRITE_BUFFER_SIZE_def)
      ultimately have "buffer_offset st2 = 0"
        using less.prems ok by (simp add: flush_writes)
      then have "buffer_offset st2 \<noteq> WRITE_BUFFER_SIZE"
        by (simp add: WRITE_BUFFER_SIZE_def)
      then show ?thesis
        using True \<open>to_copy = 0\<close> by simp
    next
      case False
      then have "space_left \<noteq> 0"
        by (simp add: space_left_def)
      then have "to_copy \<noteq> 0"
        using r by (auto simp: to_copy_def)
      then have "0 < unat to_copy"
        by (simp add: unat_gt_0)
      moreover have "unat to_copy \<le> unat r"
        using le by (simp add: word_le_nat_alt)
      ultimately have "2 * (unat r - unat to_copy) + 1 < 2 * unat r"
        by arith
      then show ?thesis
        using False unat_rest by simp
    qed
    from less.hyps [OF dec fh2]
    obtain st' ws where
      run: "copy_loop env (r - to_copy) st2 = Some st'" and fh': "file_handle st'" and
      tr: "trace st' = trace st2 @ ws" and hc: "\<forall>c\<in>set ws. handler_call c"
      by blast
    obtain ws0 where tr0: "trace st2 = trace st @ ws0" and hc0: "\<forall>c\<in>set ws0. handler_call c"
    proof (cases "buffer_offset st1 = WRITE_BUFFER_SIZE")
      case True
      then have "st2 = flush_write_buffer env st1"
        by (simp add: st2_def)
      moreover have "trace st1 = trace st"
        by (simp add: st1_def)
      ultimately show ?thesis
        using flush_trace [of env st1] that by auto
    next
      case False
      then have "trace st2 = trace st @ []"
        by (simp add: st2_def st1_def)
      then show ?thesis
        using that by force
    qed
    have "trace st' = trace st @ (ws0 @ ws)"
      using tr tr0 by simp
    moreover have "\<forall>c\<in>set (ws0 @ ws). handler_call c"
      using hc hc0 by auto
    ultimately show ?thesis
      using step run fh' ok by (intro exI [of _ st'] exI [of _ "ws0 @ ws"]) simp
  qed
qed


lemma unat_WBS: "unat WRITE_BUFFER_SIZE = 32768"
  by (simp add: WRITE_BUFFER_SIZE_def)

lemma space_left_unat:
  "off < WRITE_BUFFER_SIZE \<Longrightarrow> unat (WRITE_BUFFER_SIZE - off) = 32768 - unat off"
  by (simp add: unat_sub word_less_nat_alt word_le_nat_alt unat_WBS less_imp_le)

lemma fits_unat:
  assumes "off < WRITE_BUFFER_SIZE" and "r < WRITE_BUFFER_SIZE - off"
  shows "unat (off + r) = unat off + unat r" and "off + r < WRITE_BUFFER_SIZE"
proof -
  have o: "unat off < 32768"
    using assms(1) by (simp add: word_less_nat_alt unat_WBS)
  have "unat r < 32768 - unat off"
    using assms by (simp add: word_less_nat_alt space_left_unat)
  with o have s: "unat off + unat r < 32768" by arith
  then have "unat off + unat r < 2 ^ LENGTH(32)" by simp
  then show u: "unat (off + r) = unat off + unat r"
    by (simp only: unat_add_lem)
  show "off + r < WRITE_BUFFER_SIZE"
    using s u by (simp add: word_less_nat_alt unat_WBS)
qed

lemma rest_unat:
  assumes "off < WRITE_BUFFER_SIZE" and "\<not> r < WRITE_BUFFER_SIZE - off"
  shows "unat (r - (WRITE_BUFFER_SIZE - off)) = unat r - (32768 - unat off)"
    and "32768 - unat off \<le> unat r"
proof -
  have le: "WRITE_BUFFER_SIZE - off \<le> r"
    using assms(2) by (simp add: not_less)
  then show "32768 - unat off \<le> unat r"
    using assms(1) by (simp add: word_le_nat_alt space_left_unat)
  show "unat (r - (WRITE_BUFFER_SIZE - off)) = unat r - (32768 - unat off)"
    using le assms(1) by (simp add: unat_sub space_left_unat unat_WBS)
qed

lemma copy_loop_fit:
  assumes "0 < r" "\<not> storage_error st" "buffer_offset st < WRITE_BUFFER_SIZE"
    and "r < WRITE_BUFFER_SIZE - buffer_offset st"
  shows "copy_loop env r st = Some (st\<lparr>buffer_offset := buffer_offset st + r\<rparr>)"
proof -
  have ne: "buffer_offset st + r \<noteq> WRITE_BUFFER_SIZE"
    using fits_unat(2) [OF assms(3,4)] by simp
  show ?thesis
    using assms ne by (subst copy_loop.simps) (simp add: Let_def copy_loop_stop)
qed

lemma copy_loop_full:
  assumes "0 < r" "\<not> storage_error st" "\<not> r < WRITE_BUFFER_SIZE - buffer_offset st"
  shows "copy_loop env r st =
         copy_loop env (r - (WRITE_BUFFER_SIZE - buffer_offset st))
           (flush_write_buffer env (st\<lparr>buffer_offset := WRITE_BUFFER_SIZE\<rparr>))"
  using assms by (subst copy_loop.simps) (simp add: Let_def)

lemma flush_full:
  assumes "file_handle st" "\<not> storage_error st"
  shows "flush_write_buffer env (st\<lparr>buffer_offset := WRITE_BUFFER_SIZE\<rparr>) =
         (if fwrite_ret env (trace st) WRITE_BUFFER_SIZE \<noteq> WRITE_BUFFER_SIZE
          then st\<lparr>storage_error := True, buffer_offset := 0,
                  trace := trace st @
                    [Fwrite WRITE_BUFFER_SIZE (fwrite_ret env (trace st) WRITE_BUFFER_SIZE)]\<rparr>
          else st\<lparr>total_bytes := total_bytes st + WRITE_BUFFER_SIZE, buffer_offset := 0,
                  trace := trace st @ [Fwrite WRITE_BUFFER_SIZE WRITE_BUFFER_SIZE]\<rparr>)"
  using assms by (simp add: flush_write_buffer_def log_def Let_def WRITE_BUFFER_SIZE_def)

text \<open>
  What the loop does to a buffer that is not full at its start: it comes to an end, and
  when it ends without a storage error it has written as many full buffers as fit in
  the bytes it was given plus those it found, and keeps the rest.
\<close>

lemma copy_loop_account:
  assumes "file_handle st" and "buffer_offset st < WRITE_BUFFER_SIZE"
  shows "\<exists>st' ws. copy_loop env r st = Some st'
           \<and> buffer_offset st' < WRITE_BUFFER_SIZE
           \<and> (storage_error st \<longrightarrow> st' = st)
           \<and> trace st' = trace st @ ws
           \<and> (storage_error st' \<and> \<not> storage_error st \<longrightarrow> (\<exists>c\<in>set ws. short_write c))
           \<and> (\<not> storage_error st' \<longrightarrow>
                ws = replicate ((unat (buffer_offset st) + unat r) div 32768)
                       (Fwrite WRITE_BUFFER_SIZE WRITE_BUFFER_SIZE)
              \<and> unat (buffer_offset st') = (unat (buffer_offset st) + unat r) mod 32768)"
  using assms
proof (induction "unat r" arbitrary: r st rule: less_induct)
  case less
  have o: "unat (buffer_offset st) < 32768"
    using less.prems(2) by (simp add: word_less_nat_alt unat_WBS)
  show ?case
  proof (cases "0 < r \<and> \<not> storage_error st")
    case False
    have "copy_loop env r st = Some st"
      using False by (rule copy_loop_stop)
    moreover have "\<not> storage_error st \<Longrightarrow> r = 0"
      using False by (simp add: word_greater_zero_iff)
    ultimately show ?thesis
      using less.prems o by auto
  next
    case True
    then have r: "0 < r" and ok: "\<not> storage_error st" by simp_all
    show ?thesis
    proof (cases "r < WRITE_BUFFER_SIZE - buffer_offset st")
      case fit: True
      have "copy_loop env r st = Some (st\<lparr>buffer_offset := buffer_offset st + r\<rparr>)"
        using r ok less.prems(2) fit by (rule copy_loop_fit)
      moreover have "unat (buffer_offset st + r) = unat (buffer_offset st) + unat r"
        and "buffer_offset st + r < WRITE_BUFFER_SIZE"
        using fits_unat [OF less.prems(2) fit] by simp_all
      moreover have "unat (buffer_offset st) + unat r < 32768"
        using calculation(2,3) by (simp add: word_less_nat_alt unat_WBS)
      ultimately show ?thesis
        using ok by simp
    next
      case full: False
      let ?r' = "r - (WRITE_BUFFER_SIZE - buffer_offset st)"
      let ?st2 = "flush_write_buffer env (st\<lparr>buffer_offset := WRITE_BUFFER_SIZE\<rparr>)"
      let ?w = "fwrite_ret env (trace st) WRITE_BUFFER_SIZE"
      have step: "copy_loop env r st = copy_loop env ?r' ?st2"
        using r ok full by (rule copy_loop_full)
      have fl: "?st2 =
         (if ?w \<noteq> WRITE_BUFFER_SIZE
          then st\<lparr>storage_error := True, buffer_offset := 0,
                  trace := trace st @ [Fwrite WRITE_BUFFER_SIZE ?w]\<rparr>
          else st\<lparr>total_bytes := total_bytes st + WRITE_BUFFER_SIZE, buffer_offset := 0,
                  trace := trace st @ [Fwrite WRITE_BUFFER_SIZE WRITE_BUFFER_SIZE]\<rparr>)"
        using less.prems(1) ok by (rule flush_full)
      have u: "unat ?r' = unat r - (32768 - unat (buffer_offset st))"
        and le: "32768 - unat (buffer_offset st) \<le> unat r"
        using rest_unat [OF less.prems(2) full] by simp_all
      have smaller: "unat ?r' < unat r"
        using u le o by arith
      have fh2: "file_handle ?st2" and off2: "buffer_offset ?st2 = 0"
        using less.prems(1) by (simp_all add: fl)
      have off2': "buffer_offset ?st2 < WRITE_BUFFER_SIZE"
        unfolding off2 by (simp add: WRITE_BUFFER_SIZE_def)
      from less.hyps [OF smaller fh2 off2']
      obtain st' ws where
        run: "copy_loop env ?r' ?st2 = Some st'" and
        off': "buffer_offset st' < WRITE_BUFFER_SIZE" and
        latch: "storage_error ?st2 \<longrightarrow> st' = ?st2" and
        tr: "trace st' = trace ?st2 @ ws" and
        bad: "storage_error st' \<and> \<not> storage_error ?st2 \<longrightarrow> (\<exists>c\<in>set ws. short_write c)" and
        good: "\<not> storage_error st' \<longrightarrow>
                ws = replicate ((unat (buffer_offset ?st2) + unat ?r') div 32768)
                       (Fwrite WRITE_BUFFER_SIZE WRITE_BUFFER_SIZE)
              \<and> unat (buffer_offset st') = (unat (buffer_offset ?st2) + unat ?r') mod 32768"
        by blast
      have tr2: "trace ?st2 = trace st @ [Fwrite WRITE_BUFFER_SIZE ?w]"
        by (simp add: fl)
      have err2: "storage_error ?st2 = (?w \<noteq> WRITE_BUFFER_SIZE)"
        using ok by (simp add: fl)
      have sum: "unat (buffer_offset st) + unat r = 32768 + unat ?r'"
        using u le o by arith
      have ok2: "\<not> storage_error st' \<Longrightarrow> ?w = WRITE_BUFFER_SIZE"
        using latch err2 by auto
      have "trace st' = trace st @ (Fwrite WRITE_BUFFER_SIZE ?w # ws)"
        using tr tr2 by simp
      moreover have "storage_error st' \<longrightarrow>
          (\<exists>c\<in>set (Fwrite WRITE_BUFFER_SIZE ?w # ws). short_write c)"
        using bad err2 by auto
      moreover have "\<not> storage_error st' \<longrightarrow>
          Fwrite WRITE_BUFFER_SIZE ?w # ws =
            replicate ((unat (buffer_offset st) + unat r) div 32768)
              (Fwrite WRITE_BUFFER_SIZE WRITE_BUFFER_SIZE)
          \<and> unat (buffer_offset st') = (unat (buffer_offset st) + unat r) mod 32768"
      proof
        assume e: "\<not> storage_error st'"
        have d: "(32768 + unat ?r') div 32768 = Suc (unat ?r' div 32768)"
          by simp
        have m: "(32768 + unat ?r') mod 32768 = unat ?r' mod 32768"
          by simp
        show "Fwrite WRITE_BUFFER_SIZE ?w # ws =
            replicate ((unat (buffer_offset st) + unat r) div 32768)
              (Fwrite WRITE_BUFFER_SIZE WRITE_BUFFER_SIZE)
          \<and> unat (buffer_offset st') = (unat (buffer_offset st) + unat r) mod 32768"
          using good e ok2 [OF e] unfolding sum d m off2 by simp
      qed
      ultimately show ?thesis
        using step run off' ok
        by (intro exI [of _ st'] exI [of _ "Fwrite WRITE_BUFFER_SIZE ?w # ws"]) simp
    qed
  qed
qed


text \<open>
  Claim C9. A call of \<open>flush_write_buffer\<close> that reaches \<open>fwrite\<close> (file open, buffer not
  empty, no storage error so far) makes exactly one \<open>fwrite\<close> call for the buffered count
  and leaves the fill level at 0 whatever \<open>fwrite\<close> returned. When the returned count
  differs from the requested one, \<open>storage_error\<close> is set, \<open>total_bytes\<close> keeps its
  value, and flushing again does nothing: the bytes are neither written again nor kept.
  When the counts agree, \<open>total_bytes\<close> grows by the count and no error is set.
\<close>

theorem flush_discards_on_failure:
  assumes "file_handle st" and "0 < buffer_offset st" and "\<not> storage_error st"
  shows "buffer_offset (flush_write_buffer env st) = 0
       \<and> trace (flush_write_buffer env st) =
           trace st @ [Fwrite (buffer_offset st) (fwrite_ret env (trace st) (buffer_offset st))]
       \<and> (fwrite_ret env (trace st) (buffer_offset st) \<noteq> buffer_offset st \<longrightarrow>
            storage_error (flush_write_buffer env st)
          \<and> total_bytes (flush_write_buffer env st) = total_bytes st
          \<and> flush_write_buffer env (flush_write_buffer env st) = flush_write_buffer env st)
       \<and> (fwrite_ret env (trace st) (buffer_offset st) = buffer_offset st \<longrightarrow>
            \<not> storage_error (flush_write_buffer env st)
          \<and> total_bytes (flush_write_buffer env st) = total_bytes st + buffer_offset st)"
proof -
  have "fwrite_ret env (trace st) (buffer_offset st) \<noteq> buffer_offset st \<Longrightarrow>
        flush_write_buffer env (flush_write_buffer env st) = flush_write_buffer env st"
    using assms by (intro flush_noop) (simp add: flush_writes)
  then show ?thesis
    using assms by (simp add: flush_writes)
qed

theorem flush_discards_on_failure_witness:
  "file_handle (st_open\<lparr>buffer_offset := 100\<rparr>)
   \<and> 0 < buffer_offset (st_open\<lparr>buffer_offset := 100\<rparr>)
   \<and> \<not> storage_error (st_open\<lparr>buffer_offset := 100\<rparr>)
   \<and> fwrite_ret env_short_write (trace (st_open\<lparr>buffer_offset := 100\<rparr>)) 100 \<noteq> 100
   \<and> flush_write_buffer env_short_write (st_open\<lparr>buffer_offset := 100\<rparr>) =
       st_open\<lparr>storage_error := True, trace := [Fwrite 100 10]\<rparr>"
  using flush_discards_on_failure [of "st_open\<lparr>buffer_offset := 100\<rparr>" env_short_write]
  by (simp add: st_open_def st_boot_def env_short_write_def env_offline_def
        flush_write_buffer_def log_def Let_def)



subsection \<open>The callback\<close>

lemma new_calls_append: "trace st' = trace st @ ws \<Longrightarrow> new_calls st st' = ws"
  by (simp add: new_calls_def)

lemma fwrite_sizes_append: "fwrite_sizes (xs @ ys) = fwrite_sizes xs @ fwrite_sizes ys"
  by (induction xs rule: fwrite_sizes.induct) simp_all

lemma fwrite_sizes_full:
  "fwrite_sizes (replicate k (Fwrite WRITE_BUFFER_SIZE WRITE_BUFFER_SIZE)) = replicate k 32768"
  by (induction k) (simp_all add: unat_WBS)

lemma handler_latch:
  "storage_error st \<Longrightarrow> http_event_handler env st evt = Some st"
  by (simp add: http_event_handler_def flush_noop split: esp_http_client_event_id_t.split)

lemma handler_no_chunk:
  "event_id evt = HTTP_EVENT_ON_DATA \<Longrightarrow> \<not> is_chunk evt \<Longrightarrow>
     http_event_handler env st evt = Some st"
  by (auto simp: http_event_handler_def is_chunk_def)

lemma handler_total:
  "\<exists>st' ws. http_event_handler env st evt = Some st' \<and> file_handle st' = file_handle st
      \<and> trace st' = trace st @ ws \<and> (\<forall>c\<in>set ws. handler_call c)"
proof (cases "event_id evt")
  case HTTP_EVENT_ON_DATA
  show ?thesis
  proof (cases "data evt \<and> 0 <s data_len evt \<and> file_handle st \<and> \<not> storage_error st")
    case guard: True
    obtain err tot used where q: "spiffs_info_ret env (trace st) = (err, tot, used)"
      by (cases "spiffs_info_ret env (trace st)")
    let ?st1 = "log (Spiffs_info err tot used) st"
    show ?thesis
    proof (cases "err = ESP_OK \<and> tot - used < data_len evt")
      case True
      then have "http_event_handler env st evt = Some (?st1\<lparr>storage_error := True\<rparr>)"
        using HTTP_EVENT_ON_DATA guard q by (simp add: http_event_handler_def)
      then show ?thesis
        by (simp add: log_def)
    next
      case False
      then have h: "http_event_handler env st evt = copy_loop env (data_len evt) ?st1"
        using HTTP_EVENT_ON_DATA guard q by (auto simp: http_event_handler_def)
      have "file_handle ?st1"
        using guard by (simp add: log_def)
      from copy_loop_total [OF this, of env "data_len evt"]
      obtain st' ws where "copy_loop env (data_len evt) ?st1 = Some st'" and "file_handle st'"
        and "trace st' = trace ?st1 @ ws" and "\<forall>c\<in>set ws. handler_call c"
        by blast
      then show ?thesis
        using h guard
        by (intro exI [of _ st'] exI [of _ "Spiffs_info err tot used # ws"]) (simp add: log_def)
    qed
  next
    case False
    then have "http_event_handler env st evt = Some st"
      using HTTP_EVENT_ON_DATA by (auto simp: http_event_handler_def)
    then show ?thesis by simp
  qed
next
  case HTTP_EVENT_ON_FINISH
  then have "http_event_handler env st evt = Some (flush_write_buffer env st)"
    by (simp add: http_event_handler_def)
  then show ?thesis
    using flush_trace [of env st] by (auto simp: flush_file_handle)
qed (simp_all add: http_event_handler_def)

lemma dispatch_latch: "storage_error st \<Longrightarrow> dispatch env st evts = Some st"
  by (induction evts) (simp_all add: handler_latch)

lemma dispatch_total:
  "\<exists>st' ws. dispatch env st evts = Some st' \<and> file_handle st' = file_handle st
      \<and> trace st' = trace st @ ws \<and> (\<forall>c\<in>set ws. handler_call c)"
proof (induction evts arbitrary: st)
  case Nil
  show ?case by simp
next
  case (Cons evt evts)
  obtain st1 ws1 where h: "http_event_handler env st evt = Some st1"
    and "file_handle st1 = file_handle st" and "trace st1 = trace st @ ws1"
    and "\<forall>c\<in>set ws1. handler_call c"
    using handler_total [of env st evt] by blast
  moreover obtain st' ws where "dispatch env st1 evts = Some st'"
    and "file_handle st' = file_handle st1" and "trace st' = trace st1 @ ws"
    and "\<forall>c\<in>set ws. handler_call c"
    using Cons.IH [of st1] by blast
  ultimately show ?case
    by (intro exI [of _ st'] exI [of _ "ws1 @ ws"]) auto
qed


text \<open>A chunk handed to the callback while the file is open and the buffer not full.\<close>

lemma handler_chunk:
  assumes "is_chunk evt" and "file_handle st" and "buffer_offset st < WRITE_BUFFER_SIZE"
    and "\<not> storage_error st"
    and q: "spiffs_info_ret env (trace st) = (err, tot, used)"
  shows "\<exists>st' ws. http_event_handler env st evt = Some st'
           \<and> buffer_offset st' < WRITE_BUFFER_SIZE
           \<and> trace st' = trace st @ Spiffs_info err tot used # ws
           \<and> (storage_error st' \<and> \<not> (err = ESP_OK \<and> tot - used < data_len evt)
                \<longrightarrow> (\<exists>c\<in>set ws. short_write c))
           \<and> (\<not> storage_error st' \<longrightarrow>
                ws = replicate ((unat (buffer_offset st) + unat (data_len evt)) div 32768)
                       (Fwrite WRITE_BUFFER_SIZE WRITE_BUFFER_SIZE)
              \<and> unat (buffer_offset st') =
                  (unat (buffer_offset st) + unat (data_len evt)) mod 32768)"
proof (cases "err = ESP_OK \<and> tot - used < data_len evt")
  case True
  then have "http_event_handler env st evt =
             Some ((log (Spiffs_info err tot used) st)\<lparr>storage_error := True\<rparr>)"
    using assms by (simp add: http_event_handler_def is_chunk_def)
  then show ?thesis
    using assms(3) True by (simp add: log_def)
next
  case False
  let ?st1 = "log (Spiffs_info err tot used) st"
  have h: "http_event_handler env st evt = copy_loop env (data_len evt) ?st1"
    using assms False by (auto simp: http_event_handler_def is_chunk_def)
  have "file_handle ?st1" and "buffer_offset ?st1 < WRITE_BUFFER_SIZE"
    using assms by (simp_all add: log_def)
  from copy_loop_account [OF this, of env "data_len evt"]
  obtain st' ws where "copy_loop env (data_len evt) ?st1 = Some st'"
    and "buffer_offset st' < WRITE_BUFFER_SIZE"
    and "trace st' = trace ?st1 @ ws"
    and "storage_error st' \<and> \<not> storage_error ?st1 \<longrightarrow> (\<exists>c\<in>set ws. short_write c)"
    and "\<not> storage_error st' \<longrightarrow>
           ws = replicate ((unat (buffer_offset ?st1) + unat (data_len evt)) div 32768)
                  (Fwrite WRITE_BUFFER_SIZE WRITE_BUFFER_SIZE)
         \<and> unat (buffer_offset st') =
             (unat (buffer_offset ?st1) + unat (data_len evt)) mod 32768"
    by blast
  then show ?thesis
    using h assms(4) False
    by (intro exI [of _ st'] exI [of _ ws]) (simp add: log_def)
qed

lemma handler_account:
  assumes "file_handle st" and "buffer_offset st < WRITE_BUFFER_SIZE" and "well_formed evt"
  shows "\<exists>st' ws. http_event_handler env st evt = Some st'
           \<and> buffer_offset st' < WRITE_BUFFER_SIZE
           \<and> trace st' = trace st @ ws
           \<and> (\<not> storage_error st' \<longrightarrow>
                sum_list (fwrite_sizes ws) + unat (buffer_offset st') =
                  unat (buffer_offset st) + payload [evt]
              \<and> (\<forall>n\<in>set (fwrite_sizes ws). n \<le> 32768))"
proof (cases "storage_error st")
  case True
  then have "http_event_handler env st evt = Some st"
    by (rule handler_latch)
  then show ?thesis
    using True assms(2) by simp
next
  case ok: False
  show ?thesis
  proof (cases "event_id evt")
    case HTTP_EVENT_ON_DATA
    show ?thesis
    proof (cases "is_chunk evt")
      case True
      obtain err tot used where q: "spiffs_info_ret env (trace st) = (err, tot, used)"
        by (cases "spiffs_info_ret env (trace st)")
      let ?k = "(unat (buffer_offset st) + unat (data_len evt)) div 32768"
      from handler_chunk [OF True assms(1,2) ok q]
      obtain st' ws where h: "http_event_handler env st evt = Some st'"
        and off: "buffer_offset st' < WRITE_BUFFER_SIZE"
        and tr: "trace st' = trace st @ Spiffs_info err tot used # ws"
        and good: "\<not> storage_error st' \<longrightarrow>
               ws = replicate ?k (Fwrite WRITE_BUFFER_SIZE WRITE_BUFFER_SIZE)
             \<and> unat (buffer_offset st') =
                 (unat (buffer_offset st) + unat (data_len evt)) mod 32768"
        by blast
      have "\<not> storage_error st' \<longrightarrow>
              sum_list (fwrite_sizes (Spiffs_info err tot used # ws))
                + unat (buffer_offset st') = unat (buffer_offset st) + payload [evt]
            \<and> (\<forall>n\<in>set (fwrite_sizes (Spiffs_info err tot used # ws)). n \<le> 32768)"
      proof
        assume e: "\<not> storage_error st'"
        have "fwrite_sizes (Spiffs_info err tot used # ws) = replicate ?k 32768"
          using good e by (simp add: fwrite_sizes_full)
        moreover have "?k * 32768 + (unat (buffer_offset st) + unat (data_len evt)) mod 32768
                       = unat (buffer_offset st) + unat (data_len evt)"
          by (rule div_mult_mod_eq)
        ultimately show "sum_list (fwrite_sizes (Spiffs_info err tot used # ws))
                + unat (buffer_offset st') = unat (buffer_offset st) + payload [evt]
            \<and> (\<forall>n\<in>set (fwrite_sizes (Spiffs_info err tot used # ws)). n \<le> 32768)"
          using good e HTTP_EVENT_ON_DATA by (simp add: sum_list_replicate)
      qed
      then show ?thesis
        using h off tr
        by (intro exI [of _ st'] exI [of _ "Spiffs_info err tot used # ws"]) simp
    next
      case False
      then have "data_len evt = 0"
        using assms(3) HTTP_EVENT_ON_DATA by (simp add: well_formed_def)
      moreover have "http_event_handler env st evt = Some st"
        using False HTTP_EVENT_ON_DATA by (auto simp: http_event_handler_def is_chunk_def)
      ultimately show ?thesis
        using assms(2) HTTP_EVENT_ON_DATA by simp
    qed
  next
    case HTTP_EVENT_ON_FINISH
    then have h: "http_event_handler env st evt = Some (flush_write_buffer env st)"
      by (simp add: http_event_handler_def)
    have le: "unat (buffer_offset st) \<le> 32768"
      using assms(2) by (simp add: word_less_nat_alt unat_WBS)
    obtain ws where "trace (flush_write_buffer env st) = trace st @ ws"
      and "\<not> storage_error (flush_write_buffer env st) \<longrightarrow>
              fwrite_sizes ws = (if file_handle st \<and> 0 < buffer_offset st
                                 then [unat (buffer_offset st)] else [])
              \<and> buffer_offset (flush_write_buffer env st) =
                  (if file_handle st then 0 else buffer_offset st)"
      using flush_trace [of env st] by blast
    then show ?thesis
      using h assms(1) flush_offset [OF assms(2), of env] HTTP_EVENT_ON_FINISH le
      by (intro exI [of _ "flush_write_buffer env st"] exI [of _ ws])
         (auto simp: word_greater_zero_iff)
  qed (use assms(2) in \<open>simp_all add: http_event_handler_def\<close>)
qed


lemma dispatch_account:
  assumes "file_handle st" and "buffer_offset st < WRITE_BUFFER_SIZE"
    and "\<forall>evt\<in>set evts. well_formed evt"
  shows "\<exists>st' ws. dispatch env st evts = Some st'
           \<and> file_handle st' \<and> buffer_offset st' < WRITE_BUFFER_SIZE
           \<and> trace st' = trace st @ ws
           \<and> (\<not> storage_error st' \<longrightarrow>
                sum_list (fwrite_sizes ws) + unat (buffer_offset st') =
                  unat (buffer_offset st) + payload evts
              \<and> (\<forall>n\<in>set (fwrite_sizes ws). n \<le> 32768))"
  using assms
proof (induction evts arbitrary: st)
  case Nil
  then show ?case by simp
next
  case (Cons evt evts)
  have wf: "well_formed evt" and wfs: "\<forall>e\<in>set evts. well_formed e"
    using Cons.prems(3) by simp_all
  from handler_account [OF Cons.prems(1,2) wf, of env]
  obtain st1 ws1 where h: "http_event_handler env st evt = Some st1"
    and off1: "buffer_offset st1 < WRITE_BUFFER_SIZE"
    and tr1: "trace st1 = trace st @ ws1"
    and good1: "\<not> storage_error st1 \<longrightarrow>
                sum_list (fwrite_sizes ws1) + unat (buffer_offset st1) =
                  unat (buffer_offset st) + payload [evt]
              \<and> (\<forall>n\<in>set (fwrite_sizes ws1). n \<le> 32768)"
    by blast
  have fh1: "file_handle st1"
    using handler_total [of env st evt] h Cons.prems(1) by auto
  from Cons.IH [OF fh1 off1 wfs]
  obtain st' ws where d: "dispatch env st1 evts = Some st'"
    and fh': "file_handle st'" and off': "buffer_offset st' < WRITE_BUFFER_SIZE"
    and tr: "trace st' = trace st1 @ ws"
    and good: "\<not> storage_error st' \<longrightarrow>
                sum_list (fwrite_sizes ws) + unat (buffer_offset st') =
                  unat (buffer_offset st1) + payload evts
              \<and> (\<forall>n\<in>set (fwrite_sizes ws). n \<le> 32768)"
    by blast
  have latch: "\<not> storage_error st' \<Longrightarrow> \<not> storage_error st1"
    using dispatch_latch [of st1 env evts] d by auto
  have "\<not> storage_error st' \<longrightarrow>
          sum_list (fwrite_sizes (ws1 @ ws)) + unat (buffer_offset st') =
            unat (buffer_offset st) + payload (evt # evts)
        \<and> (\<forall>n\<in>set (fwrite_sizes (ws1 @ ws)). n \<le> 32768)"
    using good good1 latch by (auto simp: fwrite_sizes_append)
  then show ?case
    using h d fh' off' tr tr1
    by (intro exI [of _ st'] exI [of _ "ws1 @ ws"]) simp
qed

text \<open>
  Claim C1. Take the callback at any point of an attempt where the file is open and the
  buffer is not full (the start of an attempt is such a point, with an empty buffer),
  and hand it any list of well-formed events. The dispatch comes to an end; and if,
  after the flush that follows the transfer, no storage error is set, then
  \<^item> the byte counts passed to \<open>fwrite\<close> add up to the bytes found in the buffer plus the
    payload of the events,
  \<^item> no single \<open>fwrite\<close> is asked for more than 32768 bytes,
  \<^item> and, when the list is one chunk, the callback itself has written
    \<open>(offset + length) div 32768\<close> buffers of exactly 32768 bytes, one each time the
    copy filled the buffer, and has left the remaining \<open>(offset + length) mod 32768\<close>
    bytes in the buffer.
\<close>

theorem buffer_conservation:
  assumes "file_handle st" and "buffer_offset st < WRITE_BUFFER_SIZE"
    and "\<forall>evt\<in>set evts. well_formed evt"
  shows "\<exists>st1. dispatch env st evts = Some st1
           \<and> (\<not> storage_error (flush_write_buffer env st1) \<longrightarrow>
                sum_list (fwrite_sizes (new_calls st (flush_write_buffer env st1))) =
                  unat (buffer_offset st) + payload evts
              \<and> (\<forall>n\<in>set (fwrite_sizes (new_calls st (flush_write_buffer env st1))).
                    n \<le> unat WRITE_BUFFER_SIZE)
              \<and> (\<forall>evt. evts = [evt] \<and> is_chunk evt \<longrightarrow>
                    fwrite_sizes (new_calls st st1) =
                      replicate ((unat (buffer_offset st) + unat (data_len evt)) div 32768)
                        (unat WRITE_BUFFER_SIZE)
                  \<and> unat (buffer_offset st1) =
                      (unat (buffer_offset st) + unat (data_len evt)) mod 32768))"
proof -
  from dispatch_account [OF assms, of env]
  obtain st1 ws where d: "dispatch env st evts = Some st1"
    and fh1: "file_handle st1" and off1: "buffer_offset st1 < WRITE_BUFFER_SIZE"
    and tr1: "trace st1 = trace st @ ws"
    and good1: "\<not> storage_error st1 \<longrightarrow>
                sum_list (fwrite_sizes ws) + unat (buffer_offset st1) =
                  unat (buffer_offset st) + payload evts
              \<and> (\<forall>n\<in>set (fwrite_sizes ws). n \<le> 32768)"
    by blast
  let ?st2 = "flush_write_buffer env st1"
  have "\<not> storage_error ?st2 \<longrightarrow>
                sum_list (fwrite_sizes (new_calls st ?st2)) =
                  unat (buffer_offset st) + payload evts
              \<and> (\<forall>n\<in>set (fwrite_sizes (new_calls st ?st2)). n \<le> unat WRITE_BUFFER_SIZE)
              \<and> (\<forall>evt. evts = [evt] \<and> is_chunk evt \<longrightarrow>
                    fwrite_sizes (new_calls st st1) =
                      replicate ((unat (buffer_offset st) + unat (data_len evt)) div 32768)
                        (unat WRITE_BUFFER_SIZE)
                  \<and> unat (buffer_offset st1) =
                      (unat (buffer_offset st) + unat (data_len evt)) mod 32768)"
  proof
    assume e2: "\<not> storage_error ?st2"
    then have e1: "\<not> storage_error st1"
      using flush_latch [of st1 env] by auto
    then have e: "\<not> storage_error st"
      using dispatch_latch [of st env evts] d by auto
    obtain ws2 where tr2: "trace ?st2 = trace st1 @ ws2"
      and sz2: "fwrite_sizes ws2 = (if 0 < buffer_offset st1 then [unat (buffer_offset st1)] else [])"
      using flush_trace [of env st1] e2 fh1 by auto
    have n2: "new_calls st ?st2 = ws @ ws2"
      using tr1 tr2 by (simp add: new_calls_def)
    have le: "unat (buffer_offset st1) \<le> 32768"
      using off1 by (simp add: word_less_nat_alt unat_WBS)
    have s: "sum_list (fwrite_sizes ws2) = unat (buffer_offset st1)"
      by (simp add: sz2 word_greater_zero_iff)
    have a: "sum_list (fwrite_sizes (new_calls st ?st2)) = unat (buffer_offset st) + payload evts"
      using good1 e1 s by (simp add: n2 fwrite_sizes_append)
    have b: "\<forall>n\<in>set (fwrite_sizes (new_calls st ?st2)). n \<le> unat WRITE_BUFFER_SIZE"
      using good1 e1 le by (auto simp: n2 fwrite_sizes_append sz2 unat_WBS)
    have c: "fwrite_sizes (new_calls st st1) =
               replicate ((unat (buffer_offset st) + unat (data_len evt)) div 32768)
                 (unat WRITE_BUFFER_SIZE)
             \<and> unat (buffer_offset st1) =
                 (unat (buffer_offset st) + unat (data_len evt)) mod 32768"
      if one: "evts = [evt]" and ch: "is_chunk evt" for evt
    proof -
      obtain err tot used where q: "spiffs_info_ret env (trace st) = (err, tot, used)"
        by (cases "spiffs_info_ret env (trace st)")
      from handler_chunk [OF ch assms(1,2) e q]
      obtain st' ws' where h: "http_event_handler env st evt = Some st'"
        and tr': "trace st' = trace st @ Spiffs_info err tot used # ws'"
        and good': "\<not> storage_error st' \<longrightarrow>
                ws' = replicate ((unat (buffer_offset st) + unat (data_len evt)) div 32768)
                       (Fwrite WRITE_BUFFER_SIZE WRITE_BUFFER_SIZE)
              \<and> unat (buffer_offset st') =
                  (unat (buffer_offset st) + unat (data_len evt)) mod 32768"
        by blast
      have "st1 = st'"
        using d h one by simp
      then show ?thesis
        using e1 good' tr' by (simp add: new_calls_def fwrite_sizes_full unat_WBS)
    qed
    show "sum_list (fwrite_sizes (new_calls st ?st2)) =
                  unat (buffer_offset st) + payload evts
              \<and> (\<forall>n\<in>set (fwrite_sizes (new_calls st ?st2)). n \<le> unat WRITE_BUFFER_SIZE)
              \<and> (\<forall>evt. evts = [evt] \<and> is_chunk evt \<longrightarrow>
                    fwrite_sizes (new_calls st st1) =
                      replicate ((unat (buffer_offset st) + unat (data_len evt)) div 32768)
                        (unat WRITE_BUFFER_SIZE)
                  \<and> unat (buffer_offset st1) =
                      (unat (buffer_offset st) + unat (data_len evt)) mod 32768)"
      using a b c by blast
  qed
  then show ?thesis
    using d by blast
qed


theorem buffer_conservation_witness:
  "file_handle st_open \<and> buffer_offset st_open < WRITE_BUFFER_SIZE
   \<and> well_formed (chunk 40000) \<and> is_chunk (chunk 40000)
   \<and> (\<exists>st1. dispatch env_offline st_open [chunk 40000] = Some st1
         \<and> \<not> storage_error (flush_write_buffer env_offline st1)
         \<and> fwrite_sizes (new_calls st_open st1) = [32768]
         \<and> unat (buffer_offset st1) = 7232
         \<and> fwrite_sizes (new_calls st_open (flush_write_buffer env_offline st1)) = [32768, 7232]
         \<and> unat (buffer_offset st_open) + payload [chunk 40000] = 40000)"
  using buffer_conservation [of st_open "[chunk 40000]" env_offline]
  by (simp add: http_event_handler_def copy_loop.simps flush_write_buffer_def log_def Let_def
        chunk_def st_open_def st_boot_def env_offline_def WRITE_BUFFER_SIZE_def word_sless_alt
        well_formed_def is_chunk_def new_calls_def)







text \<open>
  Claim C10. A chunk arrives while the file is open, the buffer is not full and no
  storage error is set, and \<open>esp_spiffs_info\<close> answers with a status other than
  \<open>ESP_OK\<close>. Then the callback goes straight to the copy loop with the whole chunk,
  whatever total and used figures came with the failed status. The loop ends; if a
  storage error is set at its end, some \<open>fwrite\<close> of the loop returned a count other than
  the one asked for; otherwise every byte of the chunk went into the buffer, which was
  written out each time it filled.
\<close>

theorem free_space_query_failure_ignored:
  assumes "is_chunk evt" and "file_handle st" and "buffer_offset st < WRITE_BUFFER_SIZE"
    and "\<not> storage_error st"
    and "spiffs_info_ret env (trace st) = (err, tot, used)" and "err \<noteq> ESP_OK"
  shows "http_event_handler env st evt =
           copy_loop env (data_len evt) (log (Spiffs_info err tot used) st)
       \<and> (\<exists>st' ws. http_event_handler env st evt = Some st'
             \<and> trace st' = trace st @ Spiffs_info err tot used # ws
             \<and> (storage_error st' \<longrightarrow> (\<exists>c\<in>set ws. short_write c))
             \<and> (\<not> storage_error st' \<longrightarrow>
                  ws = replicate ((unat (buffer_offset st) + unat (data_len evt)) div 32768)
                         (Fwrite WRITE_BUFFER_SIZE WRITE_BUFFER_SIZE)
                \<and> unat (buffer_offset st') =
                    (unat (buffer_offset st) + unat (data_len evt)) mod 32768))"
proof -
  have "http_event_handler env st evt =
           copy_loop env (data_len evt) (log (Spiffs_info err tot used) st)"
    using assms by (simp add: http_event_handler_def is_chunk_def)
  moreover have "\<exists>st' ws. http_event_handler env st evt = Some st'
             \<and> trace st' = trace st @ Spiffs_info err tot used # ws
             \<and> (storage_error st' \<longrightarrow> (\<exists>c\<in>set ws. short_write c))
             \<and> (\<not> storage_error st' \<longrightarrow>
                  ws = replicate ((unat (buffer_offset st) + unat (data_len evt)) div 32768)
                         (Fwrite WRITE_BUFFER_SIZE WRITE_BUFFER_SIZE)
                \<and> unat (buffer_offset st') =
                    (unat (buffer_offset st) + unat (data_len evt)) mod 32768)"
    using handler_chunk [OF assms(1-5)] assms(6) by auto
  ultimately show ?thesis
    by simp
qed

theorem free_space_query_failure_ignored_witness:
  "is_chunk (chunk 2000) \<and> file_handle st_open \<and> buffer_offset st_open < WRITE_BUFFER_SIZE
   \<and> \<not> storage_error st_open
   \<and> spiffs_info_ret env_info_fails (trace st_open) = (ESP_FAIL, 0, 0) \<and> ESP_FAIL \<noteq> ESP_OK
   \<and> http_event_handler env_info_fails st_open (chunk 2000) =
       Some (st_open\<lparr>buffer_offset := 2000, trace := [Spiffs_info ESP_FAIL 0 0]\<rparr>)"
  using free_space_query_failure_ignored
          [of "chunk 2000" st_open env_info_fails ESP_FAIL 0 0]
  by (simp add: st_open_def st_boot_def env_info_fails_def env_offline_def chunk_def
        is_chunk_def word_sless_alt WRITE_BUFFER_SIZE_def ESP_OK_def ESP_FAIL_def
        copy_loop.simps log_def Let_def)




subsection \<open>One attempt\<close>

lemma perform_total:
  "\<exists>st' ws. esp_http_client_perform env st = Some (snd (perform_ret env (trace st)), st')
      \<and> file_handle st' = file_handle st
      \<and> trace st' = trace st
           @ Perform (total_bytes st) (storage_error st) (buffer_offset st) # ws
      \<and> (\<forall>c\<in>set ws. handler_call c)"
proof -
  obtain evts ret where p: "perform_ret env (trace st) = (evts, ret)"
    by (cases "perform_ret env (trace st)")
  let ?st0 = "log (Perform (total_bytes st) (storage_error st) (buffer_offset st)) st"
  obtain st' ws where "dispatch env ?st0 evts = Some st'"
    and "file_handle st' = file_handle ?st0" and "trace st' = trace ?st0 @ ws"
    and "\<forall>c\<in>set ws. handler_call c"
    using dispatch_total [of env ?st0 evts] by blast
  then show ?thesis
    using p by (intro exI [of _ st'] exI [of _ ws])
      (simp add: esp_http_client_perform_def log_def)
qed

lemma transfer_total:
  "\<exists>st' ws. attempt_transfer env st = Some (snd (perform_ret env (trace st)), st')
      \<and> \<not> file_handle st'
      \<and> trace st' = trace st @ Perform 0 False 0 # ws @ [Fclose]
      \<and> (\<forall>c\<in>set ws. handler_call c)"
proof -
  let ?st1 = "st\<lparr>total_bytes := 0, storage_error := False, buffer_offset := 0\<rparr>"
  obtain st2 ws where p: "esp_http_client_perform env ?st1 =
        Some (snd (perform_ret env (trace ?st1)), st2)"
    and tr2: "trace st2 = trace ?st1 @ Perform 0 False 0 # ws"
    and hc: "\<forall>c\<in>set ws. handler_call c"
    using perform_total [of env ?st1] by auto
  obtain ws3 where tr3: "trace (flush_write_buffer env st2) = trace st2 @ ws3"
    and hc3: "\<forall>c\<in>set ws3. handler_call c"
    using flush_trace [of env st2] by blast
  let ?st4 = "(log Fclose (flush_write_buffer env st2))\<lparr>file_handle := False\<rparr>"
  have "attempt_transfer env st = Some (snd (perform_ret env (trace st)), ?st4)"
    using p by (simp add: attempt_transfer_def Let_def)
  moreover have "trace ?st4 = trace st @ Perform 0 False 0 # (ws @ ws3) @ [Fclose]"
    using tr2 tr3 by (simp add: log_def)
  moreover have "\<forall>c\<in>set (ws @ ws3). handler_call c"
    using hc hc3 by auto
  ultimately show ?thesis
    by (intro exI [of _ ?st4] exI [of _ "ws @ ws3"]) simp
qed

lemma attempt_open_cases:
  "attempt_open env st =
     (if \<not> client_init_ret env (trace st)
      then (Return ESP_FAIL, st\<lparr>trace := trace st @ [Client_init False]\<rparr>)
      else if \<not> fopen_ret env (trace st @ [Client_init True, Unlink])
      then (Return ESP_FAIL, st\<lparr>file_handle := False,
              trace := trace st @ [Client_init True, Unlink, Fopen False, Client_cleanup]\<rparr>)
      else (Go_on, st\<lparr>file_handle := True,
              trace := trace st @ [Client_init True, Unlink, Fopen True]\<rparr>))"
  by (simp add: attempt_open_def log_def Let_def)

lemma attempt_shape:
  "\<exists>fl st' ws. download_attempt env attempt st = Some (fl, st')
      \<and> (\<forall>c\<in>set ws. handler_call c)
      \<and> (fl = Return ESP_FAIL \<and> trace st' = trace st @ [Client_init False]
         \<or> fl = Return ESP_FAIL
             \<and> trace st' = trace st @ [Client_init True, Unlink, Fopen False, Client_cleanup]
         \<or> (fl = Return ESP_OK \<or> fl = Return ESP_FAIL)
             \<and> trace st' = trace st @ [Client_init True, Unlink, Fopen True, Perform 0 False 0]
                              @ ws @ [Fclose, Client_cleanup]
         \<or> fl = Go_on
             \<and> trace st' = trace st @ [Client_init True, Unlink, Fopen True, Perform 0 False 0]
                              @ ws @ [Fclose, Task_delay (BACKOFF_BASE_MS * 2 ^ (attempt - 1)),
                                      Client_cleanup])"
proof (cases "client_init_ret env (trace st)
              \<and> fopen_ret env (trace st @ [Client_init True, Unlink])")
  case False
  then show ?thesis
    by (auto simp: download_attempt_def attempt_open_cases intro!: exI [of _ "[]"])
next
  case True
  let ?st1 = "st\<lparr>file_handle := True, trace := trace st @ [Client_init True, Unlink, Fopen True]\<rparr>"
  have o: "attempt_open env st = (Go_on, ?st1)"
    using True by (simp add: attempt_open_cases)
  obtain ret st2 ws where t: "attempt_transfer env ?st1 = Some (ret, st2)"
    and tr2: "trace st2 = trace ?st1 @ Perform 0 False 0 # ws @ [Fclose]"
    and hc: "\<forall>c\<in>set ws. handler_call c"
    using transfer_total [of env ?st1] by blast
  have d: "download_attempt env attempt st = Some (attempt_decide attempt ret st2)"
    using o t by (simp add: download_attempt_def)
  show ?thesis
    using hc tr2 unfolding d
    by (intro exI [of _ "fst (attempt_decide attempt ret st2)"]
              exI [of _ "snd (attempt_decide attempt ret st2)"] exI [of _ ws])
       (simp add: attempt_decide_def log_def Let_def)
qed



subsection \<open>The retry loop\<close>

lemma download_loop_calls:
  assumes step: "\<And>attempt st fl st'. download_attempt env attempt st = Some (fl, st') \<Longrightarrow>
                   \<exists>cs. trace st' = trace st @ cs \<and> Q cs"
    and nil: "Q []"
    and app: "\<And>xs ys. Q xs \<Longrightarrow> Q ys \<Longrightarrow> Q (xs @ ys)"
  shows "\<exists>r st' cs. download_loop env attempt st = Some (r, st')
           \<and> trace st' = trace st @ cs \<and> Q cs"
proof (induction "Suc MAX_RETRIES - attempt" arbitrary: attempt st rule: less_induct)
  case less
  show ?case
  proof (cases "attempt \<le> MAX_RETRIES")
    case False
    then have "download_loop env attempt st = Some (ESP_FAIL, st)"
      by (subst download_loop.simps) simp
    then show ?thesis
      using nil by simp
  next
    case True
    obtain fl st1 where a: "download_attempt env attempt st = Some (fl, st1)"
      using attempt_shape [of env attempt st] by blast
    obtain cs1 where tr1: "trace st1 = trace st @ cs1" and q1: "Q cs1"
      using step [OF a] by blast
    show ?thesis
    proof (cases fl)
      case (Return r)
      then have "download_loop env attempt st = Some (r, st1)"
        using True a by (subst download_loop.simps) simp
      then show ?thesis
        using tr1 q1 by blast
    next
      case Go_on
      then have l: "download_loop env attempt st = download_loop env (attempt + 1) st1"
        using True a by (subst download_loop.simps) simp
      have "Suc MAX_RETRIES - (attempt + 1) < Suc MAX_RETRIES - attempt"
        using True by arith
      from less.hyps [OF this]
      obtain r st' cs where "download_loop env (attempt + 1) st1 = Some (r, st')"
        and "trace st' = trace st1 @ cs" and "Q cs"
        by blast
      then show ?thesis
        using l tr1 app [OF q1] by (intro exI [of _ r] exI [of _ st'] exI [of _ "cs1 @ cs"]) simp
    qed
  qed
qed


lemma handler_call_kind:
  "handler_call c \<Longrightarrow> \<not> is_Perform c \<and> \<not> is_Fopen c \<and> \<not> is_Task_delay c"
  by (cases c) simp_all

lemma opens_after_append:
  "opens_after p (xs @ ys) =
     (opens_after p xs \<and> opens_after (if xs = [] then p else Some (last xs)) ys)"
  by (induction xs arbitrary: p) auto

lemma opens_after_no_open: "\<forall>c\<in>set cs. \<not> is_Fopen c \<Longrightarrow> opens_after p cs"
  by (induction cs arbitrary: p) auto

lemma attempt_performs_reset:
  assumes "download_attempt env attempt st = Some (fl, st')"
  shows "\<exists>cs. trace st' = trace st @ cs
            \<and> (\<forall>c\<in>set cs. is_Perform c \<longrightarrow> c = Perform 0 False 0)"
proof -
  obtain ws where hc: "\<forall>c\<in>set ws. handler_call c"
    and shape: "trace st' = trace st @ [Client_init False]
         \<or> trace st' = trace st @ [Client_init True, Unlink, Fopen False, Client_cleanup]
         \<or> trace st' = trace st @ [Client_init True, Unlink, Fopen True, Perform 0 False 0]
                              @ ws @ [Fclose, Client_cleanup]
         \<or> trace st' = trace st @ [Client_init True, Unlink, Fopen True, Perform 0 False 0]
                              @ ws @ [Fclose, Task_delay (BACKOFF_BASE_MS * 2 ^ (attempt - 1)),
                                      Client_cleanup]"
    using attempt_shape [of env attempt st] assms by auto
  have ws: "\<forall>c\<in>set ws. \<not> is_Perform c"
    using hc by (auto dest: handler_call_kind)
  from shape show ?thesis
    by (elim disjE) (simp_all add: ws)
qed

lemma attempt_opens_after:
  assumes "download_attempt env attempt st = Some (fl, st')"
  shows "\<exists>cs. trace st' = trace st @ cs \<and> (\<forall>p. opens_after p cs)"
proof -
  obtain ws where hc: "\<forall>c\<in>set ws. handler_call c"
    and shape: "trace st' = trace st @ [Client_init False]
         \<or> trace st' = trace st @ [Client_init True, Unlink, Fopen False, Client_cleanup]
         \<or> trace st' = trace st @ [Client_init True, Unlink, Fopen True, Perform 0 False 0]
                              @ ws @ [Fclose, Client_cleanup]
         \<or> trace st' = trace st @ [Client_init True, Unlink, Fopen True, Perform 0 False 0]
                              @ ws @ [Fclose, Task_delay (BACKOFF_BASE_MS * 2 ^ (attempt - 1)),
                                      Client_cleanup]"
    using attempt_shape [of env attempt st] assms by auto
  have ws: "opens_after p ws" for p
    using hc by (intro opens_after_no_open) (auto dest: handler_call_kind)
  from shape show ?thesis
    by (elim disjE) (simp_all add: opens_after_append ws)
qed

text \<open>
  Claim C7. Whatever the variables hold when \<open>https_download_file\<close> is called, the call
  returns, and every \<open>esp_http_client_perform\<close> it has made was entered with
  \<open>total_bytes = 0\<close>, \<open>storage_error = false\<close> and \<open>buffer_offset = 0\<close>.
\<close>

theorem no_cross_attempt_carry_over:
  "\<exists>r st'. https_download_file env st = Some (r, st')
      \<and> (\<forall>c\<in>set (new_calls st st'). is_Perform c \<longrightarrow> c = Perform 0 False 0)"
proof -
  have "\<exists>r st' cs. download_loop env 1 st = Some (r, st') \<and> trace st' = trace st @ cs
          \<and> (\<forall>c\<in>set cs. is_Perform c \<longrightarrow> c = Perform 0 False 0)"
    by (rule download_loop_calls) (auto dest: attempt_performs_reset)
  then show ?thesis
    by (auto simp: https_download_file_def new_calls_def)
qed


subsection \<open>Failed attempts in a row\<close>

lemma failure_step:
  assumes "transport_failures env attempt (Suc k) st = Some st'"
  shows "\<exists>st3 ws. download_attempt env attempt st = Some (Go_on, st3)
           \<and> trace st3 = trace st @ [Client_init True, Unlink, Fopen True, Perform 0 False 0]
                            @ ws @ [Fclose, Task_delay (BACKOFF_BASE_MS * 2 ^ (attempt - 1)),
                                    Client_cleanup]
           \<and> (\<forall>c\<in>set ws. handler_call c)
           \<and> transport_failures env (Suc attempt) k st3 = Some st'"
proof -
  obtain fl st1 where o: "attempt_open env st = (fl, st1)"
    by (cases "attempt_open env st")
  have fl: "fl = Go_on"
    using assms o by (cases fl) simp_all
  have st1: "st1 = st\<lparr>file_handle := True,
                       trace := trace st @ [Client_init True, Unlink, Fopen True]\<rparr>"
    using o fl by (simp add: attempt_open_cases split: if_splits)
  obtain ret st2 ws where t: "attempt_transfer env st1 = Some (ret, st2)"
    and tr2: "trace st2 = trace st1 @ Perform 0 False 0 # ws @ [Fclose]"
    and hc: "\<forall>c\<in>set ws. handler_call c"
    using transfer_total [of env st1] by blast
  have bad: "ret \<noteq> ESP_OK \<and> \<not> storage_error st2"
    and rest: "transport_failures env (Suc attempt) k (snd (attempt_decide attempt ret st2))
               = Some st'"
    using assms o fl t by (simp_all split: if_splits)
  let ?st3 = "snd (attempt_decide attempt ret st2)"
  have d: "attempt_decide attempt ret st2 = (Go_on, ?st3)"
    using bad by (simp add: attempt_decide_def Let_def)
  have "download_attempt env attempt st = Some (Go_on, ?st3)"
    using o fl t d by (simp add: download_attempt_def)
  moreover have "trace ?st3 = trace st @ [Client_init True, Unlink, Fopen True, Perform 0 False 0]
                            @ ws @ [Fclose, Task_delay (BACKOFF_BASE_MS * 2 ^ (attempt - 1)),
                                    Client_cleanup]"
    using bad tr2 st1 by (simp add: attempt_decide_def Let_def log_def)
  ultimately show ?thesis
    using hc rest by blast
qed

lemma failures_calls:
  assumes "transport_failures env attempt k st = Some st'"
  shows "\<exists>cs. trace st' = trace st @ cs
           \<and> filter (\<lambda>c. is_Perform c \<or> is_Task_delay c) cs =
               concat (map (\<lambda>i. [Perform 0 False 0, Task_delay (BACKOFF_BASE_MS * 2 ^ (i - 1))])
                           [attempt..<attempt + k])
           \<and> length (filter is_Perform cs) = k"
  using assms
proof (induction k arbitrary: attempt st)
  case 0
  then show ?case by simp
next
  case (Suc k)
  from failure_step [OF Suc.prems]
  obtain st3 ws where
    tr3: "trace st3 = trace st @ [Client_init True, Unlink, Fopen True, Perform 0 False 0]
                            @ ws @ [Fclose, Task_delay (BACKOFF_BASE_MS * 2 ^ (attempt - 1)),
                                    Client_cleanup]"
    and hc: "\<forall>c\<in>set ws. handler_call c"
    and rest: "transport_failures env (Suc attempt) k st3 = Some st'"
    by blast
  from Suc.IH [OF rest]
  obtain cs where tr: "trace st' = trace st3 @ cs"
    and sched: "filter (\<lambda>c. is_Perform c \<or> is_Task_delay c) cs =
               concat (map (\<lambda>i. [Perform 0 False 0, Task_delay (BACKOFF_BASE_MS * 2 ^ (i - 1))])
                           [Suc attempt..<Suc attempt + k])"
    and count: "length (filter is_Perform cs) = k"
    by blast
  have ws1: "filter (\<lambda>c. is_Perform c \<or> is_Task_delay c) ws = []"
    and ws2: "filter is_Perform ws = []"
    using hc by (auto simp: filter_empty_conv dest: handler_call_kind)
  have upt: "[attempt..<attempt + Suc k] = attempt # [Suc attempt..<Suc attempt + k]"
    by (simp add: upt_rec)
  let ?cs = "[Client_init True, Unlink, Fopen True, Perform 0 False 0]
               @ ws @ [Fclose, Task_delay (BACKOFF_BASE_MS * 2 ^ (attempt - 1)), Client_cleanup]
               @ cs"
  have "trace st' = trace st @ ?cs"
    using tr tr3 by simp
  moreover have "filter (\<lambda>c. is_Perform c \<or> is_Task_delay c) ?cs =
               concat (map (\<lambda>i. [Perform 0 False 0, Task_delay (BACKOFF_BASE_MS * 2 ^ (i - 1))])
                           [attempt..<attempt + Suc k])"
    unfolding upt using sched ws1 by simp
  moreover have "length (filter is_Perform ?cs) = Suc k"
    using count ws2 by simp
  ultimately show ?case
    by blast
qed

lemma failures_loop:
  assumes "transport_failures env attempt k st = Some st'"
    and "attempt + k \<le> Suc MAX_RETRIES"
  shows "download_loop env attempt st = download_loop env (attempt + k) st'"
  using assms
proof (induction k arbitrary: attempt st)
  case 0
  then show ?case by simp
next
  case (Suc k)
  from failure_step [OF Suc.prems(1)]
  obtain st3 where a: "download_attempt env attempt st = Some (Go_on, st3)"
    and rest: "transport_failures env (Suc attempt) k st3 = Some st'"
    by blast
  have "attempt \<le> MAX_RETRIES"
    using Suc.prems(2) by simp
  then have "download_loop env attempt st = download_loop env (Suc attempt) st3"
    using a by (subst download_loop.simps) simp
  also have "\<dots> = download_loop env (Suc attempt + k) st'"
    using Suc.prems(2) by (intro Suc.IH [OF rest]) simp
  finally show ?case by simp
qed


subsection \<open>Whole runs\<close>


lemmas run_defs =
  https_download_file_def download_loop.simps download_attempt_def attempt_open_def
  attempt_transfer_def attempt_decide_def esp_http_client_perform_def
  http_event_handler_def copy_loop.simps flush_write_buffer_def log_def Let_def
  new_calls_def MAX_RETRIES_def ESP_OK_def ESP_FAIL_def BACKOFF_BASE_MS_def
  WRITE_BUFFER_SIZE_def word_sless_alt chunk_def finish_def st_boot_def st_dirty_def
  env_offline_def
text \<open>
  Claim C2. Take any attempt the loop allows. It has got through the opening, its
  transfer has ended with whatever status \<open>ret\<close>, and \<open>storage_error\<close> is set when the
  transfer block is left (once set during the transfer it stays set until then, see
  claim C6). Then the loop returns \<open>ESP_FAIL\<close> at this attempt: after the \<open>fclose\<close> the
  only call is \<open>esp_http_client_cleanup\<close>; nothing is slept and none of the remaining
  attempts is made.
\<close>

theorem storage_failure_not_retried:
  assumes "attempt \<le> MAX_RETRIES"
    and "attempt_open env st = (Go_on, st1)"
    and "attempt_transfer env st1 = Some (ret, st2)"
    and "storage_error st2"
  shows "download_loop env attempt st = Some (ESP_FAIL, log Client_cleanup st2)"
  using assms
  by (subst download_loop.simps) (simp add: download_attempt_def attempt_decide_def)

theorem storage_failure_not_retried_witness:
  "(1::nat) \<le> MAX_RETRIES
   \<and> attempt_open env_nearly_full st_boot =
       (Go_on, st_boot\<lparr>file_handle := True, trace := [Client_init True, Unlink, Fopen True]\<rparr>)
   \<and> attempt_transfer env_nearly_full
        (st_boot\<lparr>file_handle := True, trace := [Client_init True, Unlink, Fopen True]\<rparr>) =
       Some (ESP_OK, st_boot\<lparr>storage_error := True,
               trace := [Client_init True, Unlink, Fopen True, Perform 0 False 0,
                         Spiffs_info ESP_OK 1000000 999000, Fclose]\<rparr>)
   \<and> storage_error (st_boot\<lparr>storage_error := True,
               trace := [Client_init True, Unlink, Fopen True, Perform 0 False 0,
                         Spiffs_info ESP_OK 1000000 999000, Fclose]\<rparr>)
   \<and> download_loop env_nearly_full 1 st_boot =
       Some (ESP_FAIL, st_boot\<lparr>storage_error := True,
               trace := [Client_init True, Unlink, Fopen True, Perform 0 False 0,
                         Spiffs_info ESP_OK 1000000 999000, Fclose, Client_cleanup]\<rparr>)"
  using storage_failure_not_retried [of 1 env_nearly_full st_boot
      "st_boot\<lparr>file_handle := True, trace := [Client_init True, Unlink, Fopen True]\<rparr>"
      ESP_OK
      "st_boot\<lparr>storage_error := True,
               trace := [Client_init True, Unlink, Fopen True, Perform 0 False 0,
                         Spiffs_info ESP_OK 1000000 999000, Fclose]\<rparr>"]
  by (simp add: run_defs env_nearly_full_def)

text \<open>
  Claim C3 says that the last allowed attempt, when its transfer fails without a storage
  error, is followed by no backoff sleep. In the run below all three transfers fail:
  the third attempt is followed by \<open>vTaskDelay\<close> for 4000 ms, between its \<open>fclose\<close> and its
  cleanup, before \<open>https_download_file\<close> returns \<open>ESP_FAIL\<close>.
\<close>

theorem backoff_after_final_attempt:
  "https_download_file env_offline st_boot =
     Some (ESP_FAIL, st_boot\<lparr>trace :=
       [Client_init True, Unlink, Fopen True, Perform 0 False 0, Fclose,
        Task_delay 1000, Client_cleanup,
        Client_init True, Unlink, Fopen True, Perform 0 False 0, Fclose,
        Task_delay 2000, Client_cleanup,
        Client_init True, Unlink, Fopen True, Perform 0 False 0, Fclose,
        Task_delay 4000, Client_cleanup]\<rparr>)"
  by (simp add: run_defs)

text \<open>
  Claim C4. Let the attempts numbered 1 to \<open>k\<close> each fail in their transfer without a storage
  error, with \<open>k\<close> below \<open>MAX_RETRIES\<close> so that attempt \<open>k + 1\<close> follows. Then the perform
  calls and the sleeps made so far alternate, the sleep after the \<open>i\<close>-th perform being
  of \<open>BACKOFF_BASE_MS * 2 ^ (i - 1)\<close> milliseconds, and the loop goes on with attempt
  \<open>k + 1\<close> from the state reached.
\<close>

theorem exponential_backoff:
  assumes "k < MAX_RETRIES" and "transport_failures env 1 k st = Some st'"
  shows "filter (\<lambda>c. is_Perform c \<or> is_Task_delay c) (new_calls st st') =
           concat (map (\<lambda>i. [Perform 0 False 0, Task_delay (BACKOFF_BASE_MS * 2 ^ (i - 1))])
                       [1..<Suc k])
       \<and> https_download_file env st = download_loop env (Suc k) st'"
proof -
  have "https_download_file env st = download_loop env (Suc k) st'"
    using failures_loop [OF assms(2)] assms(1) by (simp add: https_download_file_def)
  then show ?thesis
    using failures_calls [OF assms(2)] by (auto simp: new_calls_def)
qed

theorem exponential_backoff_witness:
  "(2::nat) < MAX_RETRIES
   \<and> transport_failures env_flaky 1 2 st_boot =
       Some (st_boot\<lparr>trace :=
         [Client_init True, Unlink, Fopen True, Perform 0 False 0, Fclose,
          Task_delay 1000, Client_cleanup,
          Client_init True, Unlink, Fopen True, Perform 0 False 0, Fclose,
          Task_delay 2000, Client_cleanup]\<rparr>)
   \<and> filter (\<lambda>c. is_Perform c \<or> is_Task_delay c)
        (new_calls st_boot (st_boot\<lparr>trace :=
         [Client_init True, Unlink, Fopen True, Perform 0 False 0, Fclose,
          Task_delay 1000, Client_cleanup,
          Client_init True, Unlink, Fopen True, Perform 0 False 0, Fclose,
          Task_delay 2000, Client_cleanup]\<rparr>)) =
       [Perform 0 False 0, Task_delay 1000, Perform 0 False 0, Task_delay 2000]
   \<and> https_download_file env_flaky st_boot =
       Some (ESP_OK, st_boot\<lparr>total_bytes := 40000, trace :=
         [Client_init True, Unlink, Fopen True, Perform 0 False 0, Fclose,
          Task_delay 1000, Client_cleanup,
          Client_init True, Unlink, Fopen True, Perform 0 False 0, Fclose,
          Task_delay 2000, Client_cleanup,
          Client_init True, Unlink, Fopen True, Perform 0 False 0,
          Spiffs_info ESP_OK 1000000 0, Spiffs_info ESP_OK 1000000 0,
          Fwrite 32768 32768, Fwrite 7232 7232, Fclose, Client_cleanup]\<rparr>)"
proof -
  let ?s = "st_boot\<lparr>trace :=
         [Client_init True, Unlink, Fopen True, Perform 0 False 0, Fclose,
          Task_delay 1000, Client_cleanup,
          Client_init True, Unlink, Fopen True, Perform 0 False 0, Fclose,
          Task_delay 2000, Client_cleanup]\<rparr>"
  have k: "(2::nat) < MAX_RETRIES"
    by (simp add: MAX_RETRIES_def)
  have f: "transport_failures env_flaky 1 2 st_boot = Some ?s"
    by (simp add: run_defs env_flaky_def numeral_2_eq_2)
  have n: "filter (\<lambda>c. is_Perform c \<or> is_Task_delay c) (new_calls st_boot ?s) =
           [Perform 0 False 0, Task_delay 1000, Perform 0 False 0, Task_delay 2000]"
    by (simp add: new_calls_def st_boot_def)
  have r: "download_loop env_flaky (Suc 2) ?s =
       Some (ESP_OK, st_boot\<lparr>total_bytes := 40000, trace :=
         [Client_init True, Unlink, Fopen True, Perform 0 False 0, Fclose,
          Task_delay 1000, Client_cleanup,
          Client_init True, Unlink, Fopen True, Perform 0 False 0, Fclose,
          Task_delay 2000, Client_cleanup,
          Client_init True, Unlink, Fopen True, Perform 0 False 0,
          Spiffs_info ESP_OK 1000000 0, Spiffs_info ESP_OK 1000000 0,
          Fwrite 32768 32768, Fwrite 7232 7232, Fclose, Client_cleanup]\<rparr>)"
    by (simp add: run_defs env_flaky_def)
  show ?thesis
    using exponential_backoff [OF k f] k f n r by simp
qed

text \<open>
  Claim C5. If each of the \<open>MAX_RETRIES\<close> attempts fails in its transfer without a storage
  error, \<open>https_download_file\<close> returns \<open>ESP_FAIL\<close> in the state those attempts leave:
  nothing is called after them, and \<open>esp_http_client_perform\<close> has been called exactly
  \<open>MAX_RETRIES\<close> times.
\<close>

theorem retry_exhaustion:
  assumes "transport_failures env 1 MAX_RETRIES st = Some st'"
  shows "https_download_file env st = Some (ESP_FAIL, st')
       \<and> length (filter is_Perform (new_calls st st')) = MAX_RETRIES"
proof -
  have "download_loop env 1 st = download_loop env (1 + MAX_RETRIES) st'"
    using assms by (intro failures_loop) simp_all
  also have "\<dots> = Some (ESP_FAIL, st')"
    by (subst download_loop.simps) simp
  finally show ?thesis
    using failures_calls [OF assms] by (auto simp: https_download_file_def new_calls_def)
qed

theorem retry_exhaustion_witness:
  "transport_failures env_drops 1 MAX_RETRIES st_dirty =
     Some (st_boot\<lparr>total_bytes := 100, trace :=
        [Client_init True, Unlink, Fopen True, Perform 0 False 0,
         Spiffs_info ESP_OK 1000000 0, Fwrite 100 100, Fclose, Task_delay 1000,
         Client_cleanup, Client_init True, Unlink, Fopen True,
         Perform 0 False 0, Spiffs_info ESP_OK 1000000 0, Fwrite 100 100, Fclose,
         Task_delay 2000, Client_cleanup, Client_init True, Unlink,
         Fopen True, Perform 0 False 0, Spiffs_info ESP_OK 1000000 0,
         Fwrite 100 100, Fclose, Task_delay 4000, Client_cleanup]\<rparr>)
   \<and> https_download_file env_drops st_dirty =
     Some (ESP_FAIL, st_boot\<lparr>total_bytes := 100, trace :=
        [Client_init True, Unlink, Fopen True, Perform 0 False 0,
         Spiffs_info ESP_OK 1000000 0, Fwrite 100 100, Fclose, Task_delay 1000,
         Client_cleanup, Client_init True, Unlink, Fopen True,
         Perform 0 False 0, Spiffs_info ESP_OK 1000000 0, Fwrite 100 100, Fclose,
         Task_delay 2000, Client_cleanup, Client_init True, Unlink,
         Fopen True, Perform 0 False 0, Spiffs_info ESP_OK 1000000 0,
         Fwrite 100 100, Fclose, Task_delay 4000, Client_cleanup]\<rparr>)
   \<and> length (filter is_Perform (new_calls st_dirty
       (st_boot\<lparr>total_bytes := 100, trace :=
        [Client_init True, Unlink, Fopen True, Perform 0 False 0,
         Spiffs_info ESP_OK 1000000 0, Fwrite 100 100, Fclose, Task_delay 1000,
         Client_cleanup, Client_init True, Unlink, Fopen True,
         Perform 0 False 0, Spiffs_info ESP_OK 1000000 0, Fwrite 100 100, Fclose,
         Task_delay 2000, Client_cleanup, Client_init True, Unlink,
         Fopen True, Perform 0 False 0, Spiffs_info ESP_OK 1000000 0,
         Fwrite 100 100, Fclose, Task_delay 4000, Client_cleanup]\<rparr>))) = 3"
proof -
  let ?s = "st_boot\<lparr>total_bytes := 100, trace :=
        [Client_init True, Unlink, Fopen True, Perform 0 False 0,
         Spiffs_info ESP_OK 1000000 0, Fwrite 100 100, Fclose, Task_delay 1000,
         Client_cleanup, Client_init True, Unlink, Fopen True,
         Perform 0 False 0, Spiffs_info ESP_OK 1000000 0, Fwrite 100 100, Fclose,
         Task_delay 2000, Client_cleanup, Client_init True, Unlink,
         Fopen True, Perform 0 False 0, Spiffs_info ESP_OK 1000000 0,
         Fwrite 100 100, Fclose, Task_delay 4000, Client_cleanup]\<rparr>"
  have f: "transport_failures env_drops 1 MAX_RETRIES st_dirty = Some ?s"
    by (simp add: run_defs env_drops_def numeral_3_eq_3)
  have n: "length (filter is_Perform (new_calls st_dirty ?s)) = 3"
    by (simp add: new_calls_def st_dirty_def st_boot_def)
  show ?thesis
    using retry_exhaustion [OF f] f n by simp
qed

theorem no_cross_attempt_carry_over_witness:
  "\<exists>r st'. https_download_file env_drops st_dirty = Some (r, st')
      \<and> total_bytes st' = 100
      \<and> filter is_Perform (new_calls st_dirty st') =
          [Perform 0 False 0, Perform 0 False 0, Perform 0 False 0]
      \<and> (\<forall>c\<in>set (new_calls st_dirty st'). is_Perform c \<longrightarrow> c = Perform 0 False 0)"
  using no_cross_attempt_carry_over [of env_drops st_dirty]
  by (simp add: run_defs env_drops_def)

lemma every_open_after_unlink:
  "\<exists>r s'. https_download_file env s = Some (r, s') \<and> opens_after None (new_calls s s')"
proof -
  have "\<exists>r s' cs. download_loop env 1 s = Some (r, s') \<and> trace s' = trace s @ cs
          \<and> (\<forall>p. opens_after p cs)"
    by (rule download_loop_calls) (auto dest: attempt_opens_after simp: opens_after_append)
  then show ?thesis
    by (auto simp: https_download_file_def new_calls_def)
qed

text \<open>
  Claim C8, in two parts. The first: at any attempt the loop allows, if the client is
  created and \<open>fopen\<close> fails, the loop returns \<open>ESP_FAIL\<close> there; the calls of that attempt
  are the client's creation, \<open>unlink\<close>, the failed \<open>fopen\<close> and the cleanup, so there is no
  perform, no sleep and no further attempt. The second holds with no condition at all,
  for any surroundings \<open>env'\<close> and any state \<open>s\<close>, whether or not an \<open>fopen\<close> ever fails:
  \<open>https_download_file\<close> returns, and among the calls of the run each \<open>fopen\<close>, of the
  first attempt and of every retry, comes directly after an \<open>unlink\<close>.
\<close>

theorem open_failure_is_fatal:
  "(attempt \<le> MAX_RETRIES \<and> client_init_ret env (trace st)
      \<and> \<not> fopen_ret env (trace st @ [Client_init True, Unlink]) \<longrightarrow>
      download_loop env attempt st =
        Some (ESP_FAIL, st\<lparr>file_handle := False,
                trace := trace st @ [Client_init True, Unlink, Fopen False, Client_cleanup]\<rparr>))
   \<and> (\<exists>r s'. https_download_file env' s = Some (r, s')
         \<and> opens_after None (new_calls s s'))"
proof (intro conjI impI)
  assume "attempt \<le> MAX_RETRIES \<and> client_init_ret env (trace st)
      \<and> \<not> fopen_ret env (trace st @ [Client_init True, Unlink])"
  then show "download_loop env attempt st =
        Some (ESP_FAIL, st\<lparr>file_handle := False,
                trace := trace st @ [Client_init True, Unlink, Fopen False, Client_cleanup]\<rparr>)"
    by (subst download_loop.simps) (simp add: download_attempt_def attempt_open_cases)
next
  show "\<exists>r s'. https_download_file env' s = Some (r, s')
         \<and> opens_after None (new_calls s s')"
    by (rule every_open_after_unlink)
qed

theorem open_failure_is_fatal_witness:
  "(2::nat) \<le> MAX_RETRIES
   \<and> download_attempt env_opens_once 1 st_boot =
       Some (Go_on, st_boot\<lparr>trace :=
         [Client_init True, Unlink, Fopen True, Perform 0 False 0, Fclose,
          Task_delay 1000, Client_cleanup]\<rparr>)
   \<and> client_init_ret env_opens_once
        [Client_init True, Unlink, Fopen True, Perform 0 False 0, Fclose,
         Task_delay 1000, Client_cleanup]
   \<and> \<not> fopen_ret env_opens_once
        ([Client_init True, Unlink, Fopen True, Perform 0 False 0, Fclose,
          Task_delay 1000, Client_cleanup] @ [Client_init True, Unlink])
   \<and> https_download_file env_opens_once st_boot =
       Some (ESP_FAIL, st_boot\<lparr>trace :=
         [Client_init True, Unlink, Fopen True, Perform 0 False 0, Fclose,
          Task_delay 1000, Client_cleanup,
          Client_init True, Unlink, Fopen False, Client_cleanup]\<rparr>)
   \<and> (\<exists>r s'. https_download_file env_drops st_dirty = Some (r, s')
         \<and> filter is_Fopen (new_calls st_dirty s') = [Fopen True, Fopen True, Fopen True]
         \<and> opens_after None (new_calls st_dirty s'))"
proof -
  let ?s = "st_boot\<lparr>trace :=
         [Client_init True, Unlink, Fopen True, Perform 0 False 0, Fclose,
          Task_delay 1000, Client_cleanup]\<rparr>"
  have a: "(2::nat) \<le> MAX_RETRIES"
    by (simp add: MAX_RETRIES_def)
  have b: "download_attempt env_opens_once 1 st_boot = Some (Go_on, ?s)"
    by (simp add: run_defs env_opens_once_def)
  have c: "client_init_ret env_opens_once (trace ?s)"
    and d: "\<not> fopen_ret env_opens_once (trace ?s @ [Client_init True, Unlink])"
    by (simp_all add: env_opens_once_def env_offline_def st_boot_def)
  have e: "https_download_file env_opens_once st_boot =
       Some (ESP_FAIL, st_boot\<lparr>trace :=
         [Client_init True, Unlink, Fopen True, Perform 0 False 0, Fclose,
          Task_delay 1000, Client_cleanup,
          Client_init True, Unlink, Fopen False, Client_cleanup]\<rparr>)"
    by (simp add: run_defs env_opens_once_def)
  have f: "\<exists>r s'. https_download_file env_drops st_dirty = Some (r, s')
         \<and> filter is_Fopen (new_calls st_dirty s') = [Fopen True, Fopen True, Fopen True]
         \<and> opens_after None (new_calls st_dirty s')"
    by (simp add: run_defs env_drops_def)
  show ?thesis
    using open_failure_is_fatal [of 2 env_opens_once ?s env_drops st_dirty] a b c d e f
    by (simp add: st_boot_def)
qed

end
